theory Spec2Isabelle
  imports Complex_Main "HOL-Library.Multiset"
begin

section \<open>Margin-based F1 score for breakpoint detection\<close>

text \<open>
  Embedding of \<^verbatim>\<open>F1ScoreBreakpoints._evaluate\<close> from
  \<^verbatim>\<open>sktime/performance_metrics/detection/_f1score.py\<close>.

  Breakpoint positions and the margin are modelled as exact reals (the data model of the
  specification); rounding of binary floating point is outside the model. The column
  \<^verbatim>\<open>ilocs\<close> of each data frame is the list of its values; \<^verbatim>\<open>sorted\<close> is
  \<^const>\<open>sort\<close>. The counter \<^verbatim>\<open>matched_count\<close> is a Python integer, modelled as
  \<^typ>\<open>int\<close>; the cursor \<^verbatim>\<open>pred_index\<close> starts at zero and is only incremented,
  so it is a \<^typ>\<open>nat\<close>. Every read \<^verbatim>\<open>pred[pred_index]\<close> of the source is guarded
  by \<^verbatim>\<open>pred_index < len(pred)\<close> through the short-circuit \<^verbatim>\<open>and\<close>, which the
  conditionals below keep.
\<close>

subsection \<open>The inner while loop (source lines 61--62)\<close>

text \<open>
  \<^verbatim>\<open>while pred_index < len(pred) and pred[pred_index] < true_bkpt - self.margin:
      pred_index += 1\<close>
  with \<open>bound\<close> standing for \<^verbatim>\<open>true_bkpt - self.margin\<close>.
\<close>

function advance :: "real list \<Rightarrow> real \<Rightarrow> nat \<Rightarrow> nat" where
  "advance pred bound pred_index =
     (if pred_index < length pred \<and> pred ! pred_index < bound
      then advance pred bound (Suc pred_index)
      else pred_index)"
  by pat_completeness auto
termination
  by (relation "measure (\<lambda>(pred, bound, pred_index). length pred - pred_index)") auto

declare advance.simps [simp del]

subsection \<open>The for loop over the ground truth (source lines 56--70)\<close>

text \<open>
  One iteration of the loop body on the state \<open>(matched_count, pred_index)\<close>, and the
  loop itself over the remaining ground-truth values.
\<close>

definition sweep_step :: "real \<Rightarrow> real list \<Rightarrow> real \<Rightarrow> int \<times> nat \<Rightarrow> int \<times> nat" where
  "sweep_step margin pred true_bkpt st =
     (let matched_count = fst st;
          pred_index = advance pred (true_bkpt - margin) (snd st)
      in if pred_index < length pred \<and> \<bar>pred ! pred_index - true_bkpt\<bar> < margin
         then (matched_count + 1, pred_index)
         else (matched_count, pred_index))"

fun sweep :: "real \<Rightarrow> real list \<Rightarrow> real list \<Rightarrow> int \<times> nat \<Rightarrow> int \<times> nat" where
  "sweep margin pred [] st = st"
| "sweep margin pred (true_bkpt # gt) st =
     sweep margin pred gt (sweep_step margin pred true_bkpt st)"

text \<open>
  The value of \<^verbatim>\<open>matched_count\<close> after the loop, started as the source starts it
  (\<^verbatim>\<open>matched_count = 0\<close>, \<^verbatim>\<open>pred_index = 0\<close>) on the sorted sequences.
\<close>

definition matched_count :: "real \<Rightarrow> real list \<Rightarrow> real list \<Rightarrow> int" where
  "matched_count margin y_true y_pred =
     fst (sweep margin (sort y_pred) (sort y_true) (0, 0))"

subsection \<open>The whole method (source lines 44--79)\<close>

definition evaluate :: "real \<Rightarrow> real list \<Rightarrow> real list \<Rightarrow> real" where
  "evaluate margin y_true y_pred =
     (let gt = sort y_true;
          pred = sort y_pred
      in if length gt = 0 \<and> length pred = 0 then 1
         else if length gt = 0 then 0
         else if length pred = 0 then 0
         else
           let matched = fst (sweep margin pred gt (0, 0));
               precision = real_of_int matched / real (length pred);
               recall = real_of_int matched / real (length gt)
           in if precision + recall = 0 then 0
              else 2 * precision * recall / (precision + recall))"

text \<open>The two intermediate quotients of source lines 73 and 74.\<close>

definition precision_of :: "real \<Rightarrow> real list \<Rightarrow> real list \<Rightarrow> real" where
  "precision_of margin y_true y_pred =
     real_of_int (matched_count margin y_true y_pred) / real (length (sort y_pred))"

definition recall_of :: "real \<Rightarrow> real list \<Rightarrow> real list \<Rightarrow> real" where
  "recall_of margin y_true y_pred =
     real_of_int (matched_count margin y_true y_pred) / real (length (sort y_true))"

subsection \<open>The sweep as the specification words it\<close>

text \<open>
  Written from the specification's algorithm, steps 2 and 3, for comparison with
  \<^const>\<open>sweep\<close>: the cursor is the part of the sorted predictions not yet skipped.
  For each ground-truth value \<open>t\<close>, (a) predictions strictly below \<open>t - margin\<close> are
  skipped; (b) a match is counted when a prediction remains and the first remaining one
  satisfies \<open>\<bar>p - t\<bar> < margin\<close>; (c) nothing is skipped after a match.
\<close>

fun spec_sweep :: "real \<Rightarrow> real list \<Rightarrow> real list \<Rightarrow> int" where
  "spec_sweep margin rest [] = 0"
| "spec_sweep margin rest (t # ts) =
     (let rest' = dropWhile (\<lambda>p. p < t - margin) rest
      in (case rest' of
            [] \<Rightarrow> 0
          | p # _ \<Rightarrow> if \<bar>p - t\<bar> < margin then 1 else 0)
         + spec_sweep margin rest' ts)"

text \<open>
  Written from the specification's algorithm, steps 4 and 5: the F1 value of a matched
  count and the two sequence lengths.
\<close>

definition spec_f1 :: "int \<Rightarrow> nat \<Rightarrow> nat \<Rightarrow> real" where
  "spec_f1 matched n_pred n_gt =
     (let precision = real_of_int matched / real n_pred;
          recall = real_of_int matched / real n_gt
      in if precision + recall = 0 then 0
         else 2 * precision * recall / (precision + recall))"

subsection \<open>The documented match criterion\<close>

text \<open>
  The constructor's docstring (source line 20) states when a breakpoint counts as matched:
  \<^verbatim>\<open>|pred - true| < margin\<close> for a predicted breakpoint. \<^const>\<open>sweep\<close> is compared
  with the number of ground-truth values that have such a prediction.
\<close>

definition within_margin :: "real \<Rightarrow> real list \<Rightarrow> real \<Rightarrow> bool" where
  "within_margin margin pred true_bkpt = (\<exists>p \<in> set pred. \<bar>p - true_bkpt\<bar> < margin)"

definition documented_count :: "real \<Rightarrow> real list \<Rightarrow> real list \<Rightarrow> int" where
  "documented_count margin y_true y_pred =
     int (length (filter (within_margin margin y_pred) y_true))"

section \<open>Auxiliary facts\<close>

lemma sort_Nil_iff: "sort xs = [] \<longleftrightarrow> xs = []"
  by (metis length_sort length_0_conv)

subsection \<open>The cursor\<close>

lemma advance_ge: "pred_index \<le> advance pred bound pred_index"
  by (induction pred bound pred_index rule: advance.induct)
     (subst advance.simps, auto)

lemma advance_le: "pred_index \<le> length pred \<Longrightarrow> advance pred bound pred_index \<le> length pred"
  by (induction pred bound pred_index rule: advance.induct)
     (subst advance.simps, auto)

lemma drop_advance:
  "pred_index \<le> length pred \<Longrightarrow>
   drop (advance pred bound pred_index) pred = dropWhile (\<lambda>p. p < bound) (drop pred_index pred)"
proof (induction pred bound pred_index rule: advance.induct)
  case (1 pred bound i)
  show ?case
  proof (cases "i < length pred \<and> pred ! i < bound")
    case True
    then have d: "drop i pred = pred ! i # drop (Suc i) pred"
      by (simp add: Cons_nth_drop_Suc)
    from True have "advance pred bound i = advance pred bound (Suc i)"
      by (subst advance.simps) simp
    with 1 True d show ?thesis by simp
  next
    case False
    then have a: "advance pred bound i = i"
      by (subst advance.simps) auto
    show ?thesis
    proof (cases "i < length pred")
      case True
      then have d: "drop i pred = pred ! i # drop (Suc i) pred"
        by (simp add: Cons_nth_drop_Suc)
      with False True a show ?thesis by simp
    next
      case False
      with a show ?thesis by simp
    qed
  qed
qed

subsection \<open>The matched count\<close>

lemma sweep_step_fst_bounds:
  "fst st \<le> fst (sweep_step margin pred t st) \<and> fst (sweep_step margin pred t st) \<le> fst st + 1"
  by (simp add: sweep_step_def Let_def)

lemma sweep_fst_bounds:
  "fst st \<le> fst (sweep margin pred gt st) \<and>
   fst (sweep margin pred gt st) \<le> fst st + int (length gt)"
proof (induction gt arbitrary: st)
  case Nil
  show ?case by simp
next
  case (Cons t gt)
  from Cons [of "sweep_step margin pred t st"] sweep_step_fst_bounds [of st margin pred t]
  show ?case by simp
qed

subsection \<open>Index cursor and remaining suffix\<close>

lemma sweep_spec_sweep:
  "snd st \<le> length pred \<Longrightarrow>
   fst (sweep margin pred gt st) = fst st + spec_sweep margin (drop (snd st) pred) gt"
proof (induction gt arbitrary: st)
  case Nil
  show ?case by simp
next
  case (Cons t gt)
  let ?i = "advance pred (t - margin) (snd st)"
  let ?st = "sweep_step margin pred t st"
  have snd_st: "snd ?st = ?i"
    by (simp add: sweep_step_def Let_def)
  have le: "?i \<le> length pred"
    using Cons.prems by (rule advance_le)
  have dr: "drop ?i pred = dropWhile (\<lambda>p. p < t - margin) (drop (snd st) pred)"
    using Cons.prems by (rule drop_advance)
  have fst_st: "fst ?st = fst st +
      (case drop ?i pred of [] \<Rightarrow> 0 | p # _ \<Rightarrow> if \<bar>p - t\<bar> < margin then 1 else 0)"
  proof (cases "?i < length pred")
    case True
    then have "drop ?i pred = pred ! ?i # drop (Suc ?i) pred"
      by (simp add: Cons_nth_drop_Suc)
    with True show ?thesis by (simp add: sweep_step_def Let_def)
  next
    case False
    then show ?thesis by (simp add: sweep_step_def Let_def)
  qed
  have "fst (sweep margin pred (t # gt) st) = fst (sweep margin pred gt ?st)"
    by simp
  also have "\<dots> = fst ?st + spec_sweep margin (drop (snd ?st) pred) gt"
    using le snd_st by (intro Cons.IH) simp
  finally show ?case
    using fst_st snd_st dr by (simp add: Let_def)
qed

subsection \<open>The score as one quotient\<close>

text \<open>
  On non-empty inputs the harmonic mean of lines 77--79 reduces to
  \<open>2 * matched / (|ground truth| + |predictions|)\<close>.
\<close>

lemma matched_count_bounds:
  "0 \<le> matched_count margin y_true y_pred \<and>
   matched_count margin y_true y_pred \<le> int (length y_true)"
  using sweep_fst_bounds [of "(0, 0)" margin "sort y_pred" "sort y_true"]
  by (simp add: matched_count_def)

lemma f1_quotient:
  fixes m :: real
  assumes "0 \<le> m" "0 < p" "0 < g"
  shows "(if m / p + m / g = 0 then 0 else 2 * (m / p) * (m / g) / (m / p + m / g))
         = 2 * m / (g + p)"
proof (cases "m = 0")
  case True
  then show ?thesis by simp
next
  case False
  with assms have m: "0 < m" by simp
  have s: "m / p + m / g = m * (g + p) / (p * g)"
    using assms by (simp add: field_simps)
  have "0 < m / p + m / g"
    using m assms by (simp add: add_pos_pos)
  then have nz: "m / p + m / g \<noteq> 0"
    by simp
  have gp: "g + p \<noteq> 0" "p \<noteq> 0" "g \<noteq> 0"
    using assms by simp_all
  have "2 * (m / p) * (m / g) = (2 * m / (g + p)) * (m * (g + p) / (p * g))"
    using gp by simp
  then have "2 * (m / p) * (m / g) = (2 * m / (g + p)) * (m / p + m / g)"
    using s by simp
  then have "2 * (m / p) * (m / g) / (m / p + m / g) = 2 * m / (g + p)"
    using nz by simp
  with nz show ?thesis by simp
qed

lemma evaluate_quotient:
  assumes "y_true \<noteq> []" "y_pred \<noteq> []"
  shows "evaluate margin y_true y_pred =
         2 * real_of_int (matched_count margin y_true y_pred)
           / (real (length y_true) + real (length y_pred))"
proof -
  let ?m = "real_of_int (matched_count margin y_true y_pred)"
  have m: "0 \<le> ?m"
    using matched_count_bounds [of margin y_true y_pred] by simp
  have p: "0 < real (length y_pred)" and g: "0 < real (length y_true)"
    using assms by simp_all
  have "evaluate margin y_true y_pred =
        (if ?m / real (length y_pred) + ?m / real (length y_true) = 0 then 0
         else 2 * (?m / real (length y_pred)) * (?m / real (length y_true))
              / (?m / real (length y_pred) + ?m / real (length y_true)))"
    using assms by (simp add: evaluate_def matched_count_def Let_def sort_Nil_iff)
  also have "\<dots> = 2 * ?m / (real (length y_true) + real (length y_pred))"
    using m p g by (rule f1_quotient)
  finally show ?thesis .
qed

lemma quotient_bounds:
  fixes m g p :: real
  assumes "0 \<le> m" "m \<le> g" "0 < p"
  shows "0 \<le> 2 * m / (g + p)" and "2 * m / (g + p) < 2"
    and "m \<le> p \<Longrightarrow> 2 * m / (g + p) \<le> 1"
proof -
  have pos: "0 < g + p"
    using assms by linarith
  show "0 \<le> 2 * m / (g + p)"
    using assms pos by simp
  have "m < g + p"
    using assms by linarith
  then have "2 * m < 2 * (g + p)"
    by simp
  then show "2 * m / (g + p) < 2"
    using pos by (simp add: pos_divide_less_eq)
  show "2 * m / (g + p) \<le> 1" if "m \<le> p"
  proof -
    have "2 * m \<le> g + p"
      using assms that by linarith
    then show ?thesis
      using pos by (simp add: pos_divide_le_eq)
  qed
qed

subsection \<open>The sweep against the documented criterion\<close>

text \<open>
  Every match the sweep counts is a match of the documented criterion. The converse holds
  when no prediction lies exactly at \<open>t - margin\<close> for a ground-truth value \<open>t\<close>:
  such a prediction is not skipped by the loop of line 61 and not accepted by the test of
  line 67, and it hides every later prediction from \<open>t\<close>. Away from that boundary the
  score is monotone in the margin.
\<close>

lemma length_filter_mono:
  "(\<And>x. x \<in> set xs \<Longrightarrow> P x \<Longrightarrow> Q x) \<Longrightarrow> length (filter P xs) \<le> length (filter Q xs)"
  by (induction xs) auto

lemma length_filter_sort: "length (filter P (sort xs)) = length (filter P xs)"
  by (metis mset_filter mset_sort size_mset)

lemma within_margin_sort: "within_margin margin (sort pred) = within_margin margin pred"
  by (simp add: within_margin_def fun_eq_iff)

lemma documented_count_mono:
  assumes "m1 \<le> m2"
  shows "documented_count m1 y_true y_pred \<le> documented_count m2 y_true y_pred"
proof -
  have "within_margin m2 y_pred t" if "within_margin m1 y_pred t" for t
    using that assms unfolding within_margin_def by force
  then have "length (filter (within_margin m1 y_pred) y_true)
             \<le> length (filter (within_margin m2 y_pred) y_true)"
    by (intro length_filter_mono)
  then show ?thesis
    by (simp add: documented_count_def)
qed

lemma spec_sweep_le_documented:
  "set rest \<subseteq> set pred \<Longrightarrow>
   spec_sweep margin rest ts \<le> int (length (filter (within_margin margin pred) ts))"
proof (induction ts arbitrary: rest)
  case Nil
  show ?case by simp
next
  case (Cons t ts)
  let ?rest = "dropWhile (\<lambda>p. p < t - margin) rest"
  have sub: "set ?rest \<subseteq> set pred"
    using Cons.prems set_dropWhileD by fastforce
  have hd_le: "(case ?rest of [] \<Rightarrow> 0 | p # _ \<Rightarrow> if \<bar>p - t\<bar> < margin then 1 else 0)
               \<le> (if within_margin margin pred t then 1 else (0::int))"
  proof (cases ?rest)
    case Nil
    show ?thesis unfolding Nil by simp
  next
    case (Cons p ps)
    then have "p \<in> set pred"
      using sub by auto
    then have "within_margin margin pred t" if "\<bar>p - t\<bar> < margin"
      using that unfolding within_margin_def by blast
    with Cons show ?thesis by simp
  qed
  have "spec_sweep margin rest (t # ts) =
        (case ?rest of [] \<Rightarrow> 0 | p # _ \<Rightarrow> if \<bar>p - t\<bar> < margin then 1 else 0)
        + spec_sweep margin ?rest ts"
    by (simp add: Let_def)
  also have "\<dots> \<le> (if within_margin margin pred t then 1 else 0)
                  + int (length (filter (within_margin margin pred) ts))"
    using hd_le Cons.IH [OF sub] by (rule add_mono)
  also have "\<dots> = int (length (filter (within_margin margin pred) (t # ts)))"
    by simp
  finally show ?case .
qed

lemma spec_sweep_eq_documented:
  "sorted rest \<Longrightarrow> sorted ts \<Longrightarrow> \<forall>t \<in> set ts. t - margin \<notin> set rest \<Longrightarrow>
   spec_sweep margin rest ts = int (length (filter (within_margin margin rest) ts))"
proof (induction ts arbitrary: rest)
  case Nil
  show ?case by simp
next
  case (Cons t ts)
  let ?rest = "dropWhile (\<lambda>p. p < t - margin) rest"
  have sub: "set ?rest \<subseteq> set rest"
    using set_dropWhileD by fastforce
  have srt: "sorted ?rest"
    using Cons.prems(1) by (rule sorted_dropWhile)
  have dropped: "p < t - margin" if "p \<in> set rest" "p \<notin> set ?rest" for p
  proof (rule ccontr)
    assume "\<not> p < t - margin"
    with that(1) have "p \<in> set (filter (\<lambda>p. \<not> p < t - margin) rest)" by simp
    also have "filter (\<lambda>p. \<not> p < t - margin) rest = ?rest"
    proof -
      have "dropWhile (\<lambda>p. p < t - margin) rest = filter (\<lambda>p. \<not> p < t - margin) rest"
        using Cons.prems(1)
      proof (induction rest)
        case Nil
        show ?case by simp
      next
        case (Cons a rest)
        show ?case
        proof (cases "a < t - margin")
          case True
          with Cons show ?thesis by simp
        next
          case False
          with Cons.prems have "\<forall>x \<in> set rest. \<not> x < t - margin"
            by fastforce
          then have "filter (\<lambda>p. \<not> p < t - margin) rest = rest"
            by (simp add: filter_id_conv)
          with False show ?thesis by simp
        qed
      qed
      then show ?thesis by simp
    qed
    finally show False using that(2) by simp
  qed
  have later: "within_margin margin ?rest u = within_margin margin rest u" if "t \<le> u" for u
  proof
    assume "within_margin margin ?rest u"
    with sub show "within_margin margin rest u"
      unfolding within_margin_def by blast
  next
    assume "within_margin margin rest u"
    then obtain p where p: "p \<in> set rest" "\<bar>p - u\<bar> < margin"
      unfolding within_margin_def by blast
    have "p \<in> set ?rest"
    proof (rule ccontr)
      assume "p \<notin> set ?rest"
      with p(1) have "p < t - margin" by (rule dropped)
      with p(2) that show False by linarith
    qed
    with p(2) show "within_margin margin ?rest u"
      unfolding within_margin_def by blast
  qed
  have hd_eq: "(case ?rest of [] \<Rightarrow> 0 | p # _ \<Rightarrow> if \<bar>p - t\<bar> < margin then 1 else 0)
               = (if within_margin margin rest t then 1 else (0::int))"
  proof (cases ?rest)
    case Nil
    have "\<not> within_margin margin ?rest t"
      unfolding Nil by (simp add: within_margin_def)
    then have "\<not> within_margin margin rest t"
      using later [of t] by simp
    then show ?thesis unfolding Nil by simp
  next
    case (Cons p ps)
    have "within_margin margin ?rest t \<longleftrightarrow> \<bar>p - t\<bar> < margin"
    proof
      assume "\<bar>p - t\<bar> < margin"
      with Cons show "within_margin margin ?rest t"
        by (auto simp add: within_margin_def)
    next
      assume "within_margin margin ?rest t"
      then obtain q where q: "q \<in> set ?rest" "\<bar>q - t\<bar> < margin"
        unfolding within_margin_def by blast
      have "p \<le> q"
        using srt q(1) Cons by auto
      moreover have "\<not> p < t - margin"
        using Cons hd_dropWhile [of "\<lambda>p. p < t - margin" rest] by simp
      moreover have "p \<noteq> t - margin"
      proof -
        have "p \<in> set rest"
          using Cons sub by auto
        with Cons.prems(3) show ?thesis by auto
      qed
      ultimately show "\<bar>p - t\<bar> < margin"
        using q(2) by linarith
    qed
    then have "within_margin margin rest t \<longleftrightarrow> \<bar>p - t\<bar> < margin"
      using later [of t] by simp
    with Cons show ?thesis by simp
  qed
  have "\<forall>u \<in> set ts. t \<le> u"
    using Cons.prems(2) by simp
  then have flt: "filter (within_margin margin ?rest) ts = filter (within_margin margin rest) ts"
    using later by (intro filter_cong) auto
  have "spec_sweep margin ?rest ts = int (length (filter (within_margin margin ?rest) ts))"
  proof (rule Cons.IH [OF srt])
    show "sorted ts"
      using Cons.prems(2) by simp
    show "\<forall>t \<in> set ts. t - margin \<notin> set ?rest"
      using Cons.prems(3) sub by auto
  qed
  then have "spec_sweep margin rest (t # ts) =
        (if within_margin margin rest t then 1 else 0)
        + int (length (filter (within_margin margin rest) ts))"
    using hd_eq flt by (simp add: Let_def)
  also have "\<dots> = int (length (filter (within_margin margin rest) (t # ts)))"
    by simp
  finally show ?case .
qed

lemma matched_count_spec_sweep:
  "matched_count margin y_true y_pred = spec_sweep margin (sort y_pred) (sort y_true)"
  using sweep_spec_sweep [of "(0, 0)" "sort y_pred" margin "sort y_true"]
  by (simp add: matched_count_def)

lemma matched_count_le_documented:
  "matched_count margin y_true y_pred \<le> documented_count margin y_true y_pred"
proof -
  have "spec_sweep margin (sort y_pred) (sort y_true)
        \<le> int (length (filter (within_margin margin (sort y_pred)) (sort y_true)))"
    by (rule spec_sweep_le_documented) simp
  then show ?thesis
    by (simp add: matched_count_spec_sweep documented_count_def
          within_margin_sort length_filter_sort)
qed

lemma matched_count_eq_documented:
  assumes "\<forall>t \<in> set y_true. t - margin \<notin> set y_pred"
  shows "matched_count margin y_true y_pred = documented_count margin y_true y_pred"
proof -
  have "spec_sweep margin (sort y_pred) (sort y_true)
        = int (length (filter (within_margin margin (sort y_pred)) (sort y_true)))"
    using assms by (intro spec_sweep_eq_documented) simp_all
  then show ?thesis
    by (simp add: matched_count_spec_sweep documented_count_def
          within_margin_sort length_filter_sort)
qed

lemma evaluate_margin_monotone_off_boundary:
  assumes "m1 \<le> m2" and "\<forall>t \<in> set y_true. t - m2 \<notin> set y_pred"
  shows "evaluate m1 y_true y_pred \<le> evaluate m2 y_true y_pred"
proof (cases "y_true = [] \<or> y_pred = []")
  case True
  then show ?thesis
    by (auto simp add: evaluate_def Let_def sort_Nil_iff)
next
  case False
  then have ne: "y_true \<noteq> []" "y_pred \<noteq> []" by simp_all
  have "matched_count m1 y_true y_pred \<le> documented_count m1 y_true y_pred"
    by (rule matched_count_le_documented)
  also have "\<dots> \<le> documented_count m2 y_true y_pred"
    using assms(1) by (rule documented_count_mono)
  also have "\<dots> = matched_count m2 y_true y_pred"
    using assms(2) by (rule matched_count_eq_documented [symmetric])
  finally have "real_of_int (matched_count m1 y_true y_pred)
                \<le> real_of_int (matched_count m2 y_true y_pred)"
    by simp
  moreover have "0 < real (length y_true) + real (length y_pred)"
    using ne by (simp add: add_pos_pos)
  ultimately show ?thesis
    by (simp add: evaluate_quotient [OF ne] divide_le_cancel)
qed

subsection \<open>A margin of zero\<close>

lemma sweep_step_margin_zero: "fst (sweep_step 0 pred t st) = fst st"
  by (simp add: sweep_step_def Let_def)

lemma sweep_margin_zero: "fst (sweep 0 pred gt st) = fst st"
  by (induction gt arbitrary: st) (simp_all add: sweep_step_margin_zero)

section \<open>Properties\<close>

subsection \<open>Edge cases\<close>

text \<open>
  C5: \<^const>\<open>evaluate\<close> returns 1 when both sequences are empty and 0 when exactly one
  of them is empty, for every margin.
\<close>

theorem evaluate_empty_cases:
  "evaluate margin [] [] = 1
   \<and> (y_pred \<noteq> [] \<longrightarrow> evaluate margin [] y_pred = 0)
   \<and> (y_true \<noteq> [] \<longrightarrow> evaluate margin y_true [] = 0)"
  by (simp add: evaluate_def Let_def sort_Nil_iff)

theorem evaluate_empty_cases_witness:
  "evaluate 1 [] [] = 1
   \<and> ([10::real] \<noteq> [] \<and> evaluate 1 [] [10] = 0)
   \<and> ([5::real] \<noteq> [] \<and> evaluate 1 [5] [] = 0)"
  using evaluate_empty_cases [of 1 "[10]" "[5]"] by simp

subsection \<open>Range of the score\<close>

text \<open>
  C1 (as stated: the score lies in \<open>[0, 1]\<close> for every margin \<open>\<ge> 0\<close>) fails:
  with margin 2, ground truth \<open>[5, 6]\<close> and the single prediction \<open>[5]\<close>, the
  cursor stays on the prediction, both ground-truth values match it, precision is
  \<open>2 / 1\<close>, recall is \<open>2 / 2\<close> and the returned value is \<open>4 / 3\<close>.
\<close>

theorem evaluate_range_counterexample:
  "(0::real) \<le> 2 \<and> \<not> (0 \<le> evaluate 2 [5, 6] [5] \<and> evaluate 2 [5, 6] [5] \<le> 1)"
  by (simp add: evaluate_def Let_def sweep_step_def advance.simps)

text \<open>
  C1, amended: for all inputs and every margin, the score returned by
  \<^const>\<open>evaluate\<close> is at least 0 and strictly below 2; it lies in \<open>[0, 1]\<close>
  whenever the matched count does not exceed the number of predictions, in particular
  whenever there are at least as many predictions as ground-truth values.
\<close>

theorem evaluate_range:
  "0 \<le> evaluate margin y_true y_pred
   \<and> evaluate margin y_true y_pred < 2
   \<and> (matched_count margin y_true y_pred \<le> int (length y_pred)
        \<longrightarrow> evaluate margin y_true y_pred \<le> 1)
   \<and> (length y_true \<le> length y_pred \<longrightarrow> evaluate margin y_true y_pred \<le> 1)"
proof (cases "y_true = [] \<or> y_pred = []")
  case True
  then show ?thesis
    by (auto simp add: evaluate_def Let_def sort_Nil_iff)
next
  case False
  then have ne: "y_true \<noteq> []" "y_pred \<noteq> []" by simp_all
  let ?m = "matched_count margin y_true y_pred"
  let ?g = "length y_true" and ?p = "length y_pred"
  have e: "evaluate margin y_true y_pred = 2 * real_of_int ?m / (real ?g + real ?p)"
    using ne by (rule evaluate_quotient)
  have b: "0 \<le> ?m" "?m \<le> int ?g"
    using matched_count_bounds [of margin y_true y_pred] by simp_all
  have br: "0 \<le> real_of_int ?m" "real_of_int ?m \<le> real ?g" "0 < real ?p"
    using b ne by simp_all
  note q = quotient_bounds [OF br]
  have c3: "evaluate margin y_true y_pred \<le> 1" if "?m \<le> int ?p"
  proof -
    have "real_of_int ?m \<le> real ?p"
      using that by simp
    then show ?thesis
      unfolding e by (rule q(3))
  qed
  have c4: "evaluate margin y_true y_pred \<le> 1" if "?g \<le> ?p"
    using c3 b that by linarith
  from q(1,2) c3 c4 show ?thesis
    unfolding e by blast
qed

theorem evaluate_range_witness:
  "0 \<le> evaluate 1 [5] [49 / 10, 59 / 10]
   \<and> evaluate 1 [5] [49 / 10, 59 / 10] < 2
   \<and> (matched_count 1 [5] [49 / 10, 59 / 10] \<le> int (length [49 / 10, 59 / 10 :: real])
        \<and> evaluate 1 [5] [49 / 10, 59 / 10] \<le> 1)
   \<and> (length [5 :: real] \<le> length [49 / 10, 59 / 10 :: real]
        \<and> evaluate 1 [5] [49 / 10, 59 / 10] \<le> 1)"
  using evaluate_range [of 1 "[5]" "[49 / 10, 59 / 10]"]
  by (simp add: matched_count_def sweep_step_def advance.simps)

subsection \<open>Range of the matched count\<close>

text \<open>
  C2 (as stated: \<open>0 \<le> matched \<le> min |ground truth| |predictions|\<close>) fails on
  the same input: the single prediction 5 is matched by both ground-truth values 5 and 6,
  so the count is 2 while there is one prediction.
\<close>

theorem matched_count_min_counterexample:
  "(0::real) \<le> 2 \<and>
   \<not> (0 \<le> matched_count 2 [5, 6] [5] \<and>
      matched_count 2 [5, 6] [5] \<le> min (int (length [5, 6 :: real])) (int (length [5 :: real])))"
  by (simp add: matched_count_def sweep_step_def advance.simps)

text \<open>
  C2, amended: for all inputs and every margin, the matched count of the sweep is at
  least 0 and at most the number of ground-truth values. (The number of predictions is
  no bound: the cursor stays on a matched prediction, line 70.)
\<close>

theorem matched_count_range:
  "0 \<le> matched_count margin y_true y_pred \<and>
   matched_count margin y_true y_pred \<le> int (length y_true)"
proof -
  have "fst (0::int, 0::nat) \<le> fst (sweep margin (sort y_pred) (sort y_true) (0, 0))"
    and "fst (sweep margin (sort y_pred) (sort y_true) (0, 0))
         \<le> fst (0::int, 0::nat) + int (length (sort y_true))"
    using sweep_fst_bounds [of "(0, 0)" margin "sort y_pred" "sort y_true"] by simp_all
  then show ?thesis
    by (simp add: matched_count_def)
qed

text \<open>
  C10: the matched count never exceeds the number of ground-truth values, so on
  non-empty inputs the recall of line 74 lies in \<open>[0, 1]\<close>; the precision of line
  73 need not (it is 2 for ground truth \<open>[5, 6]\<close>, prediction \<open>[5]\<close>, margin 2).
\<close>

theorem recall_range:
  "matched_count margin y_true y_pred \<le> int (length y_true)
   \<and> (y_true \<noteq> [] \<and> y_pred \<noteq> [] \<longrightarrow>
        0 \<le> recall_of margin y_true y_pred \<and> recall_of margin y_true y_pred \<le> 1)
   \<and> precision_of 2 [5, 6] [5] = 2"
proof -
  let ?m = "matched_count margin y_true y_pred"
  have b: "0 \<le> ?m" "?m \<le> int (length y_true)"
    using matched_count_bounds [of margin y_true y_pred] by simp_all
  then have br: "0 \<le> real_of_int ?m" "real_of_int ?m \<le> real (length y_true)"
    by simp_all
  have r: "0 \<le> recall_of margin y_true y_pred \<and> recall_of margin y_true y_pred \<le> 1"
    if "y_true \<noteq> []"
  proof -
    from that have "0 < real (length y_true)" by simp
    with br show ?thesis
      by (simp add: recall_of_def)
  qed
  have p: "precision_of 2 [5, 6] [5] = 2"
    by (simp add: precision_of_def matched_count_def sweep_step_def advance.simps)
  from b(2) r p show ?thesis by blast
qed

theorem recall_range_witness:
  "matched_count 2 [5, 6] [5] \<le> int (length [5, 6 :: real])
   \<and> ([5, 6 :: real] \<noteq> [] \<and> [5 :: real] \<noteq> [] \<and>
        0 \<le> recall_of 2 [5, 6] [5] \<and> recall_of 2 [5, 6] [5] \<le> 1)
   \<and> precision_of 2 [5, 6] [5] = 2"
  using recall_range [of 2 "[5, 6]" "[5]"] by simp

subsection \<open>The sweep and the F1 formula\<close>

text \<open>
  C4: on non-empty inputs the matched count computed by the index-based loop equals the
  reference sweep \<^const>\<open>spec_sweep\<close> over the sorted sequences. The match test is
  strict: a single prediction at distance exactly \<open>margin\<close> from a single ground-truth
  value is not a match. The cursor is not advanced after a match: one prediction within
  the margin of two ground-truth values is counted for both.
\<close>

theorem matched_count_is_spec_sweep:
  "(y_true \<noteq> [] \<and> y_pred \<noteq> [] \<longrightarrow>
      matched_count margin y_true y_pred = spec_sweep margin (sort y_pred) (sort y_true))
   \<and> (\<bar>p - t\<bar> = margin \<longrightarrow> matched_count margin [t] [p] = 0)
   \<and> (\<bar>p - t\<^sub>1\<bar> < margin \<and> \<bar>p - t\<^sub>2\<bar> < margin \<longrightarrow>
        matched_count margin [t\<^sub>1, t\<^sub>2] [p] = 2)"
proof -
  have a: "matched_count margin y_true y_pred = spec_sweep margin (sort y_pred) (sort y_true)"
    using sweep_spec_sweep [of "(0, 0)" "sort y_pred" margin "sort y_true"]
    by (simp add: matched_count_def)
  have b: "matched_count margin [t] [p] = 0" if "\<bar>p - t\<bar> = margin"
    using that
    by (cases "p < t - margin")
       (simp_all add: matched_count_def sweep_step_def Let_def advance.simps)
  have c: "matched_count margin [t\<^sub>1, t\<^sub>2] [p] = 2"
    if "\<bar>p - t\<^sub>1\<bar> < margin \<and> \<bar>p - t\<^sub>2\<bar> < margin"
  proof -
    from that have lo: "\<not> p < t\<^sub>1 - margin" "\<not> p < t\<^sub>2 - margin"
      by linarith+
    then have adv: "advance [p] (t\<^sub>1 - margin) 0 = 0" "advance [p] (t\<^sub>2 - margin) 0 = 0"
      by (simp_all add: advance.simps)
    show ?thesis
      using that adv by (simp add: matched_count_def sweep_step_def Let_def)
  qed
  from a b c show ?thesis by blast
qed

theorem matched_count_is_spec_sweep_witness:
  "([5, 6 :: real] \<noteq> [] \<and> [5 :: real] \<noteq> [] \<and>
      matched_count 2 [5, 6] [5] = spec_sweep 2 (sort [5]) (sort [5, 6]))
   \<and> (\<bar>5 - 7\<bar> = (2::real) \<and> matched_count 2 [7] [5] = 0)
   \<and> (\<bar>5 - 5\<bar> < (2::real) \<and> \<bar>5 - 6\<bar> < (2::real) \<and> matched_count 2 [5, 6] [5] = 2)"
  using matched_count_is_spec_sweep
    [where y_true = "[5, 6]" and y_pred = "[5]" and margin = 2
       and p = 5 and t = 7 and t\<^sub>1 = 5 and t\<^sub>2 = 6]
  by simp

text \<open>
  C6: on non-empty inputs the returned value is the F1 value \<^const>\<open>spec_f1\<close> of the
  matched count, with precision \<open>matched / |predicted|\<close> and recall
  \<open>matched / |ground truth|\<close>, and 0 when their sum is 0.
\<close>

theorem evaluate_is_spec_f1:
  assumes "y_true \<noteq> []" and "y_pred \<noteq> []"
  shows "evaluate margin y_true y_pred =
         spec_f1 (matched_count margin y_true y_pred) (length y_pred) (length y_true)"
  using assms
  by (simp add: evaluate_def spec_f1_def matched_count_def Let_def sort_Nil_iff)

theorem evaluate_is_spec_f1_witness:
  "[5, 10 :: real] \<noteq> [] \<and> [11 / 2, 21 / 2 :: real] \<noteq> [] \<and>
   evaluate 1 [5, 10] [11 / 2, 21 / 2] = spec_f1 2 2 2 \<and> spec_f1 2 2 2 = 1"
  using evaluate_is_spec_f1 [of "[5, 10]" "[11 / 2, 21 / 2]" 1]
  by (simp add: matched_count_def sweep_step_def advance.simps spec_f1_def)

subsection \<open>Reordering, symmetry, margin\<close>

text \<open>
  C7: permuting either input sequence (equal multisets of values) leaves the score
  unchanged.
\<close>

theorem evaluate_permutation_invariant:
  assumes "mset y_true' = mset y_true" and "mset y_pred' = mset y_pred"
  shows "evaluate margin y_true' y_pred' = evaluate margin y_true y_pred"
proof -
  have "sort y_true' = sort y_true"
    using assms(1) by (intro properties_for_sort) simp_all
  moreover have "sort y_pred' = sort y_pred"
    using assms(2) by (intro properties_for_sort) simp_all
  ultimately show ?thesis
    by (simp add: evaluate_def)
qed

theorem evaluate_permutation_invariant_witness:
  "mset [10, 5 :: real] = mset [5, 10] \<and> mset [21 / 2, 11 / 2 :: real] = mset [11 / 2, 21 / 2]
   \<and> evaluate 1 [10, 5] [21 / 2, 11 / 2] = evaluate 1 [5, 10] [11 / 2, 21 / 2]"
  using evaluate_permutation_invariant [of "[10, 5]" "[5, 10]" "[21 / 2, 11 / 2]" "[11 / 2, 21 / 2]" 1]
  by simp

text \<open>
  C8: \<^const>\<open>evaluate\<close> is not symmetric in its two sequences: with margin 2,
  ground truth \<open>[5, 6]\<close> against prediction \<open>[5]\<close> scores \<open>4 / 3\<close>, the swapped
  call scores \<open>2 / 3\<close>.
\<close>

theorem evaluate_not_symmetric:
  "\<exists>margin y_true y_pred. evaluate margin y_true y_pred \<noteq> evaluate margin y_pred y_true"
proof -
  have "evaluate 2 [5, 6] [5] = 4 / 3"
    by (simp add: evaluate_def Let_def sweep_step_def advance.simps)
  moreover have "evaluate 2 [5] [5, 6] = 2 / 3"
    by (simp add: evaluate_def Let_def sweep_step_def advance.simps)
  ultimately have "evaluate 2 [5, 6] [5] \<noteq> evaluate 2 [5] [5, 6]"
    by simp
  then show ?thesis by blast
qed

text \<open>
  C9: with margin 0 the strict test \<open>\<bar>p - t\<bar> < 0\<close> never holds, so on non-empty
  inputs nothing is matched and the score is 0, also for identical sequences.
\<close>

theorem evaluate_margin_zero:
  assumes "y_true \<noteq> []" and "y_pred \<noteq> []"
  shows "matched_count 0 y_true y_pred = 0 \<and> evaluate 0 y_true y_pred = 0"
proof -
  have m: "matched_count 0 y_true y_pred = 0"
    by (simp add: matched_count_def sweep_margin_zero)
  have "evaluate 0 y_true y_pred =
        2 * real_of_int (matched_count 0 y_true y_pred)
          / (real (length y_true) + real (length y_pred))"
    using assms by (rule evaluate_quotient)
  with m show ?thesis by simp
qed

theorem evaluate_margin_zero_witness:
  "[5 :: real] \<noteq> [] \<and> matched_count 0 [5] [5] = 0 \<and> evaluate 0 [5] [5] = 0"
  using evaluate_margin_zero [of "[5]" "[5]"] by simp

text \<open>
  C3 (the score never decreases when the margin grows) does not hold of the code: for
  ground truth \<open>[5]\<close> and predictions \<open>[3, 5]\<close>, margin 1 skips the prediction 3
  and matches 5 (score \<open>2 / 3\<close>), while margin 2 leaves the cursor on 3, which lies
  exactly at \<open>5 - 2\<close> and fails the strict test, so the prediction 5 is never looked
  at (score 0), although it is within the margin of the ground-truth value: the
  documented criterion counts one match there, the sweep none.
\<close>

theorem evaluate_margin_monotone_fails:
  "(1::real) \<le> 2
   \<and> evaluate 1 [5] [3, 5] = 2 / 3 \<and> evaluate 2 [5] [3, 5] = 0
   \<and> matched_count 2 [5] [3, 5] = 0 \<and> documented_count 2 [5] [3, 5] = 1"
  by (simp add: evaluate_def matched_count_def documented_count_def within_margin_def
        Let_def sweep_step_def advance.simps)

end
